theory Spec2Isabelle
  imports Complex_Main "HOL-Library.Multiset" "HOL-Library.Sublist"
begin

section \<open>Strings\<close>

text \<open>
  A string is a list of code units from U+0000 to U+00FF (\<^typ>\<open>string\<close>; a character
  is the code unit of its number, so \<open>CHR 0xA0\<close> is the no-break space and \<open>CHR 0xC9\<close> the
  capital E with acute). A JavaScript string with a code unit above U+00FF is outside
  the type. The three string methods the application calls are written out on this type
  as ECMAScript defines them there:
  \<^item> \<open>trim\<close> strips white space and line terminators from both ends. Of the code
    units up to U+00FF these are tab (9), line feed (10), vertical tab (11), form feed
    (12), carriage return (13), space (32) and no-break space (160).
  \<^item> \<open>toLowerCase\<close> maps each code unit to its Unicode lower case. Up to U+00FF the
    code units with a different lower case are \<open>A\<close> to \<open>Z\<close> (65 to 90) and the capital
    letters U+00C0 to U+00DE without the multiplication sign U+00D7 (192 to 214 and 216
    to 222); each maps to the code unit 32 above it. No other code unit changes, and
    the length of the string never does.
  \<^item> \<open>includes\<close> is the test for a contiguous substring.
\<close>

definition isWhiteSpace :: "char \<Rightarrow> bool" where
  "isWhiteSpace c = (of_char c \<in> {9, 10, 11, 12, 13, 32, 160 :: nat})"

definition trimStart :: "string \<Rightarrow> string" where
  "trimStart s = dropWhile isWhiteSpace s"

definition trimEnd :: "string \<Rightarrow> string" where
  "trimEnd s = rev (dropWhile isWhiteSpace (rev s))"

definition trim :: "string \<Rightarrow> string" where
  "trim s = trimEnd (trimStart s)"

definition lowerChar :: "char \<Rightarrow> char" where
  "lowerChar c =
     (if (65 \<le> (of_char c :: nat) \<and> (of_char c :: nat) \<le> 90) \<or>
         (192 \<le> (of_char c :: nat) \<and> (of_char c :: nat) \<le> 214) \<or>
         (216 \<le> (of_char c :: nat) \<and> (of_char c :: nat) \<le> 222)
      then char_of (of_char c + (32 :: nat)) else c)"

definition toLowerCase :: "string \<Rightarrow> string" where
  "toLowerCase s = map lowerChar s"

text \<open>\<open>includes_str s q\<close> is \<open>s.includes(q)\<close>: \<open>q\<close> occurs in \<open>s\<close> as a contiguous substring.\<close>

definition includes_str :: "string \<Rightarrow> string \<Rightarrow> bool" where
  "includes_str s q = sublist q s"


section \<open>Arrays\<close>

text \<open>
  \<open>Array.prototype.indexOf\<close>: the index of the first element strictly equal to \<open>x\<close>,
  or \<open>-1\<close> when there is none.
\<close>

fun indexOfFrom :: "'a list \<Rightarrow> 'a \<Rightarrow> int \<Rightarrow> int" where
  "indexOfFrom [] x i = - 1"
| "indexOfFrom (y # ys) x i = (if y = x then i else indexOfFrom ys x (i + 1))"

definition indexOf :: "'a list \<Rightarrow> 'a \<Rightarrow> int" where
  "indexOf xs x = indexOfFrom xs x 0"

text \<open>
  \<open>Array.prototype.findIndex\<close>: the index of the first element satisfying \<open>P\<close>; the
  source's \<open>-1\<close> is \<open>None\<close> here. \<open>Array.prototype.find\<close> returns the element at that
  index (or \<open>undefined\<close>), so a mutation through the reference it returns is an update of
  the array at that index.
\<close>

fun findIndex :: "('a \<Rightarrow> bool) \<Rightarrow> 'a list \<Rightarrow> nat option" where
  "findIndex P [] = None"
| "findIndex P (x # xs) = (if P x then Some 0 else map_option Suc (findIndex P xs))"

text \<open>
  \<open>Array.prototype.sort\<close> with a comparator \<open>cmp\<close> whose sign orders two elements. The
  sort is stable (ECMAScript 2019), which together with a consistent comparator fixes
  its result; it is written here as the stable insertion sort.
\<close>

fun insertBy :: "('a \<Rightarrow> 'a \<Rightarrow> int) \<Rightarrow> 'a \<Rightarrow> 'a list \<Rightarrow> 'a list" where
  "insertBy cmp x [] = [x]"
| "insertBy cmp x (y # ys) = (if cmp x y \<le> 0 then x # y # ys else y # insertBy cmp x ys)"

definition array_sort :: "('a \<Rightarrow> 'a \<Rightarrow> int) \<Rightarrow> 'a list \<Rightarrow> 'a list" where
  "array_sort cmp xs = foldr (insertBy cmp) xs []"

text \<open>\<open>array.splice(i, 1)\<close>: the array without its element at index \<open>i\<close>.\<close>

definition splice1 :: "nat \<Rightarrow> 'a list \<Rightarrow> 'a list" where
  "splice1 i xs = take i xs @ drop (Suc i) xs"


section \<open>Constants\<close>

definition MAX_UNDO_TIME :: int where
  "MAX_UNDO_TIME = 5000"

definition STORAGE_KEY :: string where
  "STORAGE_KEY = ''todos''"

definition FILTER_KEY :: string where
  "FILTER_KEY = ''filter''"

definition FILTER_TYPES :: "string list" where
  "FILTER_TYPES = [''all'', ''active'', ''completed'']"

text \<open>The keys of \<open>MESSAGES\<close> that the operations below pass to a toast.\<close>

datatype message =
    NO_TASK_INPUT | TASK_ADDED | TASK_DELETED | TASK_EDITED | TASK_RESTORED
  | TASKS_CLEARED | NO_COMPLETED

text \<open>A call of \<open>Toast.success\<close>, \<open>Toast.danger\<close>, \<open>Toast.warning\<close> or \<open>Toast.info\<close>.\<close>

datatype toast = Success message | Danger message | Warning message | Info message


section \<open>Data model\<close>

text \<open>
  A todo object \<open>{id, text, completed, createdAt}\<close>. A JavaScript number that is an id is
  a rational here: \<open>generateId\<close> produces integers, a stored payload may hold any number.
  The fields \<open>id\<close> and \<open>text\<close> are \<open>idOf\<close> and \<open>textOf\<close>.
\<close>

record todo =
  idOf :: rat
  textOf :: string
  completed :: bool
  createdAt :: string

text \<open>
  The state fields of \<open>TodoApp\<close>: \<open>todos\<close>, \<open>filter\<close> (here \<open>filter_type\<close>), \<open>searchQuery\<close>,
  \<open>deletedTodo\<close> and \<open>deletedTime\<close>; \<open>null\<close> is \<open>None\<close>. The DOM, the theme and the
  pending timers are not part of it.
\<close>

record app =
  todos :: "todo list"
  filter_type :: string
  searchQuery :: string
  deletedTodo :: "todo option"
  deletedTime :: "int option"

text \<open>The state the constructor sets up, before \<open>init\<close> runs.\<close>

definition constructor :: app where
  "constructor =
     \<lparr>todos = [], filter_type = ''all'', searchQuery = [], deletedTodo = None,
      deletedTime = None\<rparr>"

text \<open>
  An uncaught exception. The only one the operations below can raise is the
  \<open>TypeError\<close> of reading a property of \<open>null\<close>.
\<close>

datatype error = TypeError


section \<open>Helpers\<close>

text \<open>\<open>validateTodoText\<close>; its argument is always a string here.\<close>

definition validateTodoText :: "string \<Rightarrow> bool" where
  "validateTodoText text = (length (trim text) > 0)"

text \<open>
  \<open>generateId\<close>: \<open>Date.now() + Math.floor(Math.random() * 1000)\<close>. The clock reading
  \<open>now\<close> (milliseconds) and the jitter \<open>Math.floor(Math.random() * 1000)\<close>, an integer
  from 0 to 999, are inputs.
\<close>

definition generateId :: "int \<Rightarrow> int \<Rightarrow> rat" where
  "generateId now jitter = of_int (now + jitter)"


section \<open>StorageManager\<close>

text \<open>
  A value produced by \<open>JSON.parse\<close>. A number is a rational (the infinities that an
  out-of-range literal parses to are outside the type). An object is the list of its
  properties; a name stands for its first entry in the list.
\<close>

datatype json =
    JNull
  | JBool bool
  | JNum rat
  | JStr string
  | JArr "json list"
  | JObj "(string \<times> json) list"

text \<open>
  What reading a key of \<open>localStorage\<close> and parsing it gives: no item under the key, an
  exception (the storage is unavailable or the text is not JSON), or a parsed value.
\<close>

datatype stored = Absent | Throws | Parsed json

definition load :: "stored \<Rightarrow> json \<Rightarrow> json" where
  "load item defaultValue =
     (case item of Absent \<Rightarrow> defaultValue | Throws \<Rightarrow> defaultValue | Parsed v \<Rightarrow> v)"

datatype jstype = TUndefined | TObject | TBoolean | TNumber | TString

text \<open>\<open>typeof\<close>, of a value or of \<open>undefined\<close> (\<open>None\<close>).\<close>

fun typeof :: "json option \<Rightarrow> jstype" where
  "typeof None = TUndefined"
| "typeof (Some JNull) = TObject"
| "typeof (Some (JBool b)) = TBoolean"
| "typeof (Some (JNum n)) = TNumber"
| "typeof (Some (JStr s)) = TString"
| "typeof (Some (JArr xs)) = TObject"
| "typeof (Some (JObj fs)) = TObject"

text \<open>
  Reading one of the properties \<open>id\<close>, \<open>text\<close>, \<open>completed\<close>, \<open>createdAt\<close> of a non-null
  parsed value: only an object can have it.
\<close>

fun getProp :: "json \<Rightarrow> string \<Rightarrow> json option" where
  "getProp (JObj fs) k = map_of fs k"
| "getProp v k = None"

definition validTodo :: "json \<Rightarrow> bool" where
  "validTodo todo =
     (typeof (Some todo) = TObject \<and>
      todo \<noteq> JNull \<and>
      typeof (getProp todo ''id'') = TNumber \<and>
      typeof (getProp todo ''text'') = TString \<and>
      typeof (getProp todo ''completed'') = TBoolean \<and>
      typeof (getProp todo ''createdAt'') = TString)"

definition validateTodos :: "json \<Rightarrow> bool" where
  "validateTodos data = (case data of JArr xs \<Rightarrow> list_all validTodo xs | _ \<Rightarrow> False)"

text \<open>
  The todo that a parsed object is to the operations: its four fields. Further
  properties of a stored object are read by no operation and are left out.
\<close>

definition toTodo :: "json \<Rightarrow> todo option" where
  "toTodo v =
     (case (getProp v ''id'', getProp v ''text'', getProp v ''completed'', getProp v ''createdAt'') of
        (Some (JNum i), Some (JStr t), Some (JBool c), Some (JStr d)) \<Rightarrow>
          Some \<lparr>idOf = i, textOf = t, completed = c, createdAt = d\<rparr>
      | _ \<Rightarrow> None)"

definition toTodos :: "json \<Rightarrow> todo list" where
  "toTodos data = (case data of JArr xs \<Rightarrow> List.map_filter toTodo xs | _ \<Rightarrow> [])"


section \<open>TodoRenderer\<close>

definition filterTodos :: "todo list \<Rightarrow> string \<Rightarrow> string \<Rightarrow> todo list" where
  "filterTodos tds flt query_in =
     (let filtered =
        (if trim query_in \<noteq> [] then
           (let query = toLowerCase query_in
            in filter (\<lambda>todo. includes_str (toLowerCase (textOf todo)) query) tds)
         else tds)
      in if flt = ''active'' then filter (\<lambda>todo. \<not> completed todo) filtered
         else if flt = ''completed'' then filter (\<lambda>todo. completed todo) filtered
         else filtered)"


section \<open>TodoApp\<close>

text \<open>
  Every operation takes the state and returns the toasts it shows and the state it
  leaves. \<open>saveToStorage\<close> and \<open>render\<close> change none of the five state fields. What an
  operation reads from outside (the clock, the random jitter, the ISO date string, the
  answer to \<open>prompt\<close> or \<open>confirm\<close>) is an argument.
\<close>

definition addTodo :: "app \<Rightarrow> string \<Rightarrow> int \<Rightarrow> int \<Rightarrow> string \<Rightarrow> toast list \<times> app" where
  "addTodo S text now jitter isoString =
     (let newTodo = \<lparr>idOf = generateId now jitter, textOf = text, completed = False,
                     createdAt = isoString\<rparr>
      in ([Success TASK_ADDED], S\<lparr>todos := todos S @ [newTodo]\<rparr>))"

text \<open>\<open>handleAddTodo\<close>; \<open>input_value\<close> is the value of the input element.\<close>

definition handleAddTodo :: "app \<Rightarrow> string \<Rightarrow> int \<Rightarrow> int \<Rightarrow> string \<Rightarrow> toast list \<times> app" where
  "handleAddTodo S input_value now jitter isoString =
     (let text = trim input_value
      in if \<not> validateTodoText text then ([Warning NO_TASK_INPUT], S)
         else addTodo S text now jitter isoString)"

definition toggleTodo :: "app \<Rightarrow> rat \<Rightarrow> toast list \<times> app" where
  "toggleTodo S i =
     (case findIndex (\<lambda>t. idOf t = i) (todos S) of
        None \<Rightarrow> ([], S)
      | Some k \<Rightarrow>
          ([], S\<lparr>todos := (todos S)[k := (todos S ! k)\<lparr>completed := \<not> completed (todos S ! k)\<rparr>]\<rparr>))"

text \<open>\<open>editTodo\<close>; \<open>answer\<close> is what \<open>prompt\<close> returns, \<open>None\<close> when it is cancelled.\<close>

definition editTodo :: "app \<Rightarrow> rat \<Rightarrow> string option \<Rightarrow> toast list \<times> app" where
  "editTodo S i answer =
     (case findIndex (\<lambda>t. idOf t = i) (todos S) of
        None \<Rightarrow> ([], S)
      | Some k \<Rightarrow>
          (case answer of
             None \<Rightarrow> ([], S)
           | Some newText \<Rightarrow>
               if validateTodoText newText
               then ([Success TASK_EDITED],
                     S\<lparr>todos := (todos S)[k := (todos S ! k)\<lparr>textOf := trim newText\<rparr>]\<rparr>)
               else ([], S)))"

text \<open>
  \<open>deleteTodo\<close> at clock reading \<open>now\<close>. It also schedules, through \<open>setupUndo\<close>, the
  callback below to run one second later.
\<close>

definition deleteTodo :: "app \<Rightarrow> rat \<Rightarrow> int \<Rightarrow> toast list \<times> app" where
  "deleteTodo S i now =
     (case findIndex (\<lambda>t. idOf t = i) (todos S) of
        None \<Rightarrow> ([], S)
      | Some todoIndex \<Rightarrow>
          ([Danger TASK_DELETED],
           S\<lparr>deletedTodo := Some (todos S ! todoIndex), deletedTime := Some now,
             todos := splice1 todoIndex (todos S)\<rparr>))"

text \<open>
  The callback that \<open>setupUndo\<close> schedules, run at clock reading \<open>now\<close> with the user's
  answer to \<open>confirm\<close>; it restores the todo and then clears the slot. In
  \<open>Date.now() - this.deletedTime\<close> a \<open>null\<close> counts as 0. When the slot is \<open>null\<close> and the
  test still passes, \<open>null\<close> is pushed and \<open>render\<close> raises a \<open>TypeError\<close> on it.
\<close>

definition setupUndo_callback :: "app \<Rightarrow> bool \<Rightarrow> int \<Rightarrow> error + toast list \<times> app" where
  "setupUndo_callback S confirmed now =
     (if confirmed then
        (if now - (case deletedTime S of None \<Rightarrow> 0 | Some t \<Rightarrow> t) < MAX_UNDO_TIME
         then (case deletedTodo S of
                 None \<Rightarrow> Inl TypeError
               | Some d \<Rightarrow>
                   Inr ([Success TASK_RESTORED],
                        S\<lparr>todos := todos S @ [d], deletedTodo := None, deletedTime := None\<rparr>))
         else Inr ([], S\<lparr>deletedTodo := None, deletedTime := None\<rparr>))
      else Inr ([], S\<lparr>deletedTodo := None, deletedTime := None\<rparr>))"

definition clearCompleted :: "app \<Rightarrow> bool \<Rightarrow> toast list \<times> app" where
  "clearCompleted S confirmed =
     (let completedCount = length (filter (\<lambda>t. completed t) (todos S))
      in if completedCount = 0 then ([Info NO_COMPLETED], S)
         else if confirmed
         then ([Success TASKS_CLEARED], S\<lparr>todos := filter (\<lambda>t. \<not> completed t) (todos S)\<rparr>)
         else ([], S))"

definition reorderTodos :: "app \<Rightarrow> rat list \<Rightarrow> app" where
  "reorderTodos S orderedIds =
     S\<lparr>todos := array_sort (\<lambda>a b. indexOf orderedIds (idOf a) - indexOf orderedIds (idOf b))
                  (todos S)\<rparr>"

text \<open>
  \<open>loadFromStorage\<close>, given what the storage holds under \<open>STORAGE_KEY\<close> and under
  \<open>FILTER_KEY\<close>.
\<close>

definition loadFromStorage :: "app \<Rightarrow> stored \<Rightarrow> stored \<Rightarrow> app" where
  "loadFromStorage S todosItem filterItem =
     (let savedTodos = load todosItem (JArr []);
          S1 = (if validateTodos savedTodos then S\<lparr>todos := toTodos savedTodos\<rparr> else S);
          savedFilter = load filterItem JNull
      in case savedFilter of
           JStr f \<Rightarrow> if f \<noteq> [] \<and> f \<in> set FILTER_TYPES then S1\<lparr>filter_type := f\<rparr> else S1
         | _ \<Rightarrow> S1)"

text \<open>The state after the constructor has run \<open>init\<close>.\<close>

definition init :: "stored \<Rightarrow> stored \<Rightarrow> app" where
  "init todosItem filterItem = loadFromStorage constructor todosItem filterItem"

section \<open>The specification's reading of the operations\<close>

text \<open>
  The specification's \<open>reorder\<close>, by its words: the tasks whose ids appear in
  \<open>orderedIds\<close> in that order, then every other task, in its relative position,
  appended after them.
\<close>

definition reorder_spec :: "todo list \<Rightarrow> rat list \<Rightarrow> todo list" where
  "reorder_spec tds orderedIds =
     sort_key (\<lambda>t. indexOf orderedIds (idOf t)) (filter (\<lambda>t. idOf t \<in> set orderedIds) tds)
     @ filter (\<lambda>t. idOf t \<notin> set orderedIds) tds"

text \<open>
  The specification's \<open>visibleTasks\<close>, by its words: the tasks whose text contains the
  trimmed search query, both in lower case (every task when the trimmed query is empty),
  and that satisfy the filter predicate.
\<close>

definition visibleTasks_spec :: "todo list \<Rightarrow> string \<Rightarrow> string \<Rightarrow> todo list" where
  "visibleTasks_spec tds flt query_in =
     filter (\<lambda>t. (trim query_in = [] \<or>
                   includes_str (toLowerCase (textOf t)) (toLowerCase (trim query_in))) \<and>
                  (if flt = ''active'' then \<not> completed t
                   else if flt = ''completed'' then completed t
                   else True)) tds"


text \<open>
  The specification's \<open>validateCollection\<close>, by its words: the data is a sequence, and
  every element carries an integer \<open>id\<close>, a string \<open>text\<close>, a boolean \<open>completed\<close> and a
  string \<open>createdAt\<close>.
\<close>

definition validateCollection_spec :: "json \<Rightarrow> bool" where
  "validateCollection_spec data =
     (case data of
        JArr xs \<Rightarrow>
          list_all (\<lambda>x. (case getProp x ''id'' of
                            Some (JNum i) \<Rightarrow> of_int \<lfloor>i\<rfloor> = i | _ \<Rightarrow> False) \<and>
                         (case getProp x ''text'' of Some (JStr t) \<Rightarrow> True | _ \<Rightarrow> False) \<and>
                         (case getProp x ''completed'' of Some (JBool c) \<Rightarrow> True | _ \<Rightarrow> False) \<and>
                         (case getProp x ''createdAt'' of Some (JStr d) \<Rightarrow> True | _ \<Rightarrow> False)) xs
      | _ \<Rightarrow> False)"

text \<open>
  The specification's "reports": an operation reports a failure when it tells its caller
  or the user of it. A method of \<open>TodoApp\<close> returns nothing, so all it can report is the
  toasts it shows.
\<close>

definition reports :: "toast list \<times> app \<Rightarrow> bool" where
  "reports r = (fst r \<noteq> [])"


section \<open>The ids a state holds\<close>

text \<open>The ids of the Collection, followed by the id of the todo in the pending-undo slot.\<close>

definition held_ids :: "app \<Rightarrow> rat list" where
  "held_ids S = map idOf (todos S @ (case deletedTodo S of None \<Rightarrow> [] | Some d \<Rightarrow> [d]))"


section \<open>Sample inputs\<close>

definition task1 :: todo where
  "task1 = \<lparr>idOf = 1, textOf = ''Buy Milk'', completed = False, createdAt = ''2024-01-01T10:00:00.000Z''\<rparr>"

definition task2 :: todo where
  "task2 = \<lparr>idOf = 2, textOf = ''Walk dog'', completed = True, createdAt = ''2024-01-02T10:00:00.000Z''\<rparr>"

definition task3 :: todo where
  "task3 = \<lparr>idOf = 3, textOf = ''milk the cow'', completed = False, createdAt = ''2024-01-03T10:00:00.000Z''\<rparr>"

definition three_tasks :: app where
  "three_tasks = constructor\<lparr>todos := [task1, task2, task3]\<rparr>"

text \<open>A task whose text, the French word for summer in capitals, has letters above U+007F.\<close>

definition task_ete :: todo where
  "task_ete = \<lparr>idOf = 4, textOf = [CHR 0xC9, CHR ''T'', CHR 0xC9], completed = False,
                createdAt = ''2024-01-04T10:00:00.000Z''\<rparr>"

text \<open>A stored payload of one task whose \<open>id\<close> is the number 1.5.\<close>

definition payload_fraction_id :: json where
  "payload_fraction_id =
     JArr [JObj [(''id'', JNum (3 / 2)), (''text'', JStr ''Buy Milk''),
                 (''completed'', JBool False),
                 (''createdAt'', JStr ''2024-01-01T10:00:00.000Z'')]]"


section \<open>Facts about the string and array functions\<close>

text \<open>The no-break space is trimmed, and the capital letters above U+007F are lowered.\<close>

lemma trim_no_break_space:
  "trim [CHR 0xA0] = []"
  "trim ([CHR 0xA0] @ ''Buy Milk'' @ [CHR 0x09, CHR 0xA0]) = ''Buy Milk''"
  by code_simp+

lemma toLowerCase_latin1:
  "toLowerCase [CHR 0xC9, CHR ''T'', CHR 0xC9] = [CHR 0xE9, CHR ''t'', CHR 0xE9]"
  "toLowerCase [CHR 0xC0, CHR 0xD6, CHR 0xD7, CHR 0xD8, CHR 0xDE, CHR 0xDF] =
     [CHR 0xE0, CHR 0xF6, CHR 0xD7, CHR 0xF8, CHR 0xFE, CHR 0xDF]"
  by code_simp+

lemma length_toLowerCase: "length (toLowerCase s) = length s"
  by (simp add: toLowerCase_def)

lemma trim_Nil: "trim [] = []"
  by (simp add: trim_def trimEnd_def trimStart_def)

lemma trimEnd_prefix: "\<exists>r. s = trimEnd s @ r"
proof -
  have "s = rev (dropWhile isWhiteSpace (rev s)) @ rev (takeWhile isWhiteSpace (rev s))"
    by (metis rev_append rev_rev_ident takeWhile_dropWhile_id)
  then have "s = trimEnd s @ rev (takeWhile isWhiteSpace (rev s))"
    unfolding trimEnd_def .
  then show ?thesis ..
qed

lemma trimEnd_last: "trimEnd s \<noteq> [] \<Longrightarrow> \<not> isWhiteSpace (last (trimEnd s))"
  using hd_dropWhile [of isWhiteSpace "rev s"]
  by (simp add: trimEnd_def last_rev)

lemma trimStart_hd: "trimStart s \<noteq> [] \<Longrightarrow> \<not> isWhiteSpace (hd (trimStart s))"
  using hd_dropWhile [of isWhiteSpace s] by (simp add: trimStart_def)

lemma trim_hd: 
  assumes "trim s \<noteq> []" shows "\<not> isWhiteSpace (hd (trim s))"
proof -
  obtain r where r: "trimStart s = trim s @ r"
    using trimEnd_prefix [of "trimStart s"] by (auto simp: trim_def)
  with assms have "hd (trimStart s) = hd (trim s)" by (metis hd_append2)
  moreover from r assms have "trimStart s \<noteq> []" by auto
  ultimately show ?thesis using trimStart_hd [of s] by simp
qed

lemma trim_last: "trim s \<noteq> [] \<Longrightarrow> \<not> isWhiteSpace (last (trim s))"
  unfolding trim_def by (rule trimEnd_last)

lemma trim_idem: "trim (trim s) = trim s"
proof (cases "trim s = []")
  case True
  then show ?thesis by (simp add: trim_Nil)
next
  case False
  have 1: "trimStart (trim s) = trim s"
    using trim_hd [OF False] False by (simp add: trimStart_def dropWhile_eq_self_iff)
  have "\<not> isWhiteSpace (hd (rev (trim s)))"
    using trim_last [OF False] False by (simp add: hd_rev)
  then have "dropWhile isWhiteSpace (rev (trim s)) = rev (trim s)"
    unfolding dropWhile_eq_self_iff by (rule disjI2)
  then have 2: "trimEnd (trim s) = trim s"
    by (simp add: trimEnd_def)
  show ?thesis
    unfolding trim_def [of "trim s"] 1 2 ..
qed

lemma validateTodoText_trim: "validateTodoText (trim v) \<longleftrightarrow> trim v \<noteq> []"
  by (simp add: validateTodoText_def trim_idem)

lemma includes_str_iff: "includes_str s q \<longleftrightarrow> (\<exists>p r. s = p @ q @ r)"
  by (simp add: includes_str_def sublist_def)

lemma findIndex_None_iff: "findIndex P xs = None \<longleftrightarrow> (\<forall>x\<in>set xs. \<not> P x)"
  by (induction xs) auto

lemma findIndex_Some:
  "findIndex P xs = Some k \<Longrightarrow> k < length xs \<and> P (xs ! k) \<and> List.find P xs = Some (xs ! k)"
  by (induction xs arbitrary: k) (auto split: if_splits)

lemma findIndex_splice1:
  "findIndex (\<lambda>t. f t = i) xs = Some k \<Longrightarrow> splice1 k xs = remove1 (xs ! k) xs"
proof (induction xs arbitrary: k)
  case Nil
  then show ?case by simp
next
  case (Cons x xs)
  show ?case
  proof (cases "f x = i")
    case True
    with Cons.prems show ?thesis by (simp add: splice1_def)
  next
    case False
    with Cons.prems obtain k' where k': "findIndex (\<lambda>t. f t = i) xs = Some k'" "k = Suc k'"
      by auto
    from findIndex_Some [OF k'(1)] have "f (xs ! k') = i" by simp
    with False have "x \<noteq> xs ! k'" by auto
    with Cons.IH [OF k'(1)] k'(2) show ?thesis by (simp add: splice1_def)
  qed
qed

lemma insertBy_key: "insertBy (\<lambda>a b. f a - f b) x ys = insort_key f x ys"
  by (induction ys) auto

lemma array_sort_key: "array_sort (\<lambda>a b. f a - f b) xs = sort_key f xs"
  by (induction xs) (simp_all add: array_sort_def insertBy_key)

lemma indexOfFrom_notin: "x \<notin> set xs \<Longrightarrow> indexOfFrom xs x i = - 1"
  by (induction xs arbitrary: i) auto

lemma indexOfFrom_lower: "x \<in> set xs \<Longrightarrow> i \<le> indexOfFrom xs x i"
proof (induction xs arbitrary: i)
  case Nil
  then show ?case by simp
next
  case (Cons y ys)
  show ?case
  proof (cases "y = x")
    case True
    then show ?thesis by simp
  next
    case False
    with Cons.prems have "x \<in> set ys" by simp
    from Cons.IH [OF this, of "i + 1"] False show ?thesis by simp
  qed
qed

lemma indexOfFrom_nth: "x \<in> set xs \<Longrightarrow> xs ! nat (indexOfFrom xs x i - i) = x"
proof (induction xs arbitrary: i)
  case Nil
  then show ?case by simp
next
  case (Cons y ys)
  show ?case
  proof (cases "y = x")
    case True
    then show ?thesis by simp
  next
    case False
    with Cons.prems have in_ys: "x \<in> set ys" by simp
    have "i + 1 \<le> indexOfFrom ys x (i + 1)" by (rule indexOfFrom_lower [OF in_ys])
    then have "nat (indexOfFrom ys x (i + 1) - i) = Suc (nat (indexOfFrom ys x (i + 1) - (i + 1)))"
      by linarith
    with Cons.IH [OF in_ys, of "i + 1"] False show ?thesis by simp
  qed
qed

lemma indexOf_minus1_iff: "indexOf xs x = - 1 \<longleftrightarrow> x \<notin> set xs"
  using indexOfFrom_lower [of x xs 0] indexOfFrom_notin [of x xs 0]
  by (auto simp: indexOf_def)

lemma indexOf_ge_minus1: "- 1 \<le> indexOf xs x"
  using indexOfFrom_lower [of x xs 0] indexOfFrom_notin [of x xs 0]
  by (cases "x \<in> set xs") (auto simp: indexOf_def)

lemma indexOf_inj_on: "inj_on (indexOf xs) (set xs)"
proof (rule inj_onI)
  fix x y assume "x \<in> set xs" "y \<in> set xs" "indexOf xs x = indexOf xs y"
  then show "x = y"
    using indexOfFrom_nth [of x xs 0] indexOfFrom_nth [of y xs 0] by (simp add: indexOf_def)
qed

lemma indexOfFrom_strict_sorted:
  "distinct xs \<Longrightarrow> sorted_wrt (<) (map (\<lambda>x. indexOfFrom xs x i) xs)"
proof (induction xs arbitrary: i)
  case Nil
  then show ?case by simp
next
  case (Cons y ys)
  then have ny: "y \<notin> set ys" and d: "distinct ys" by simp_all
  have eq: "map (\<lambda>x. indexOfFrom (y # ys) x i) ys = map (\<lambda>x. indexOfFrom ys x (i + 1)) ys"
    using ny by (intro map_cong) auto
  have less: "\<forall>k\<in>set (map (\<lambda>x. indexOfFrom ys x (i + 1)) ys). i < k"
    using indexOfFrom_lower [of _ ys "i + 1"] by fastforce
  have hd_eq: "indexOfFrom (y # ys) y i = i" by simp
  have full: "map (\<lambda>x. indexOfFrom (y # ys) x i) (y # ys) = i # map (\<lambda>x. indexOfFrom ys x (i + 1)) ys"
    by (simp only: list.map eq hd_eq)
  have "sorted_wrt (<) (i # map (\<lambda>x. indexOfFrom ys x (i + 1)) ys)"
    using Cons.IH [OF d, of "i + 1"] less unfolding sorted_wrt.simps by blast
  then show ?case unfolding full .
qed

lemma indexOf_sorted: "distinct xs \<Longrightarrow> sorted (map (indexOf xs) xs)"
proof -
  assume "distinct xs"
  then have "sorted_wrt (<) (map (\<lambda>x. indexOfFrom xs x 0) xs)"
    by (rule indexOfFrom_strict_sorted)
  then have "sorted (map (\<lambda>x. indexOfFrom xs x 0) xs)"
    by (rule strict_sorted_imp_sorted)
  moreover have "indexOf xs = (\<lambda>x. indexOfFrom xs x 0)" by (auto simp: indexOf_def)
  ultimately show ?thesis by simp
qed

lemma sorted_split_least:
  fixes f :: "'a \<Rightarrow> int"
  shows "sorted (map f zs) \<Longrightarrow> \<forall>z\<in>set zs. c \<le> f z \<Longrightarrow>
    zs = filter (\<lambda>z. f z = c) zs @ filter (\<lambda>z. f z \<noteq> c) zs"
proof (induction zs)
  case Nil
  then show ?case by simp
next
  case (Cons z zs)
  show ?case
  proof (cases "f z = c")
    case True
    with Cons show ?thesis by simp
  next
    case False
    with Cons.prems have "\<forall>y\<in>set zs. f y \<noteq> c" by fastforce
    then have "filter (\<lambda>z. f z = c) zs = []" "filter (\<lambda>z. f z \<noteq> c) zs = zs"
      by (simp_all add: filter_empty_conv filter_id_conv)
    with False show ?thesis by simp
  qed
qed


section \<open>Facts about the stored payload\<close>

lemma validTodo_iff:
  "validTodo v \<longleftrightarrow>
     (\<exists>fs i t c d. v = JObj fs \<and> map_of fs ''id'' = Some (JNum i) \<and>
        map_of fs ''text'' = Some (JStr t) \<and> map_of fs ''completed'' = Some (JBool c) \<and>
        map_of fs ''createdAt'' = Some (JStr d))"
proof -
  have ty: "\<And>x. typeof x = TNumber \<longleftrightarrow> (\<exists>n. x = Some (JNum n))"
    "\<And>x. typeof x = TString \<longleftrightarrow> (\<exists>s. x = Some (JStr s))"
    "\<And>x. typeof x = TBoolean \<longleftrightarrow> (\<exists>b. x = Some (JBool b))"
    subgoal for x by (cases x rule: typeof.cases) auto
    subgoal for x by (cases x rule: typeof.cases) auto
    subgoal for x by (cases x rule: typeof.cases) auto
    done
  show ?thesis
    by (cases v) (auto simp: validTodo_def ty)
qed

lemma validateTodos_iff:
  "validateTodos data \<longleftrightarrow> (\<exists>xs. data = JArr xs \<and> (\<forall>x\<in>set xs. validTodo x))"
  by (cases data) (simp_all add: validateTodos_def list_all_iff)

lemma validTodo_toTodo: "validTodo v \<longleftrightarrow> toTodo v \<noteq> None"
  unfolding validTodo_iff
  by (cases v) (auto simp: toTodo_def split: option.splits json.splits)

text \<open>A payload that passes \<open>validateTodos\<close> is taken over whole: no element is dropped.\<close>

lemma toTodos_keeps_all:
  "validateTodos (JArr xs) \<Longrightarrow> map Some (toTodos (JArr xs)) = map toTodo xs"
proof (induction xs)
  case Nil
  then show ?case by (simp add: toTodos_def map_filter_simps)
next
  case (Cons x xs)
  then have "validTodo x" and rest: "validateTodos (JArr xs)"
    by (simp_all add: validateTodos_def)
  then obtain t where "toTodo x = Some t" using validTodo_toTodo by auto
  with Cons.IH [OF rest] show ?case by (simp add: toTodos_def map_filter_simps)
qed


section \<open>Unique ids\<close>

text \<open>
  No operation changes the id of a task. When the ids held by the state are distinct,
  they stay so under \<open>toggleTodo\<close>, \<open>editTodo\<close>, \<open>deleteTodo\<close>, the undo callback,
  \<open>clearCompleted\<close> and \<open>reorderTodos\<close>; under \<open>addTodo\<close> they stay so exactly when the
  number \<open>generateId\<close> returns is not held yet.
\<close>

lemma map_idOf_update_completed:
  "map idOf (xs[k := (xs ! k)\<lparr>completed := b\<rparr>]) = map idOf xs"
  by (cases "k < length xs") (simp_all add: map_update list_update_same_conv list_update_beyond)

lemma map_idOf_update_text:
  "map idOf (xs[k := (xs ! k)\<lparr>textOf := s\<rparr>]) = map idOf xs"
  by (cases "k < length xs") (simp_all add: map_update list_update_same_conv list_update_beyond)

lemma toggleTodo_held_ids: "held_ids (snd (toggleTodo S i)) = held_ids S"
  by (simp add: toggleTodo_def held_ids_def map_idOf_update_completed split: option.splits)

lemma editTodo_held_ids: "held_ids (snd (editTodo S i answer)) = held_ids S"
  by (simp add: editTodo_def held_ids_def map_idOf_update_text split: option.splits)

lemma deleteTodo_unique:
  assumes "distinct (held_ids S)"
  shows "distinct (held_ids (snd (deleteTodo S i now)))"
proof (cases "findIndex (\<lambda>t. idOf t = i) (todos S)")
  case None
  with assms show ?thesis by (simp add: deleteTodo_def)
next
  case (Some k)
  let ?d = "todos S ! k"
  from findIndex_Some [OF Some] have "k < length (todos S)" by simp
  then have mem: "?d \<in> set (todos S)" by simp
  have sp: "splice1 k (todos S) = remove1 ?d (todos S)" by (rule findIndex_splice1 [OF Some])
  have "mset (remove1 ?d (todos S) @ [?d]) = mset (todos S)" using mem by simp
  then have "mset (map idOf (remove1 ?d (todos S) @ [?d])) = mset (map idOf (todos S))"
    by (metis mset_map)
  moreover have "distinct (map idOf (todos S))" using assms by (simp add: held_ids_def)
  ultimately have "distinct (map idOf (remove1 ?d (todos S) @ [?d]))"
    by (metis mset_eq_imp_distinct_iff)
  with Some sp show ?thesis by (simp add: deleteTodo_def held_ids_def)
qed

lemma setupUndo_callback_unique:
  assumes "distinct (held_ids S)" and "setupUndo_callback S confirmed now = Inr (ts, S')"
  shows "distinct (held_ids S')"
  using assms
  by (auto simp: setupUndo_callback_def held_ids_def split: if_splits option.splits)

lemma clearCompleted_unique:
  assumes "distinct (held_ids S)"
  shows "distinct (held_ids (snd (clearCompleted S confirmed)))"
  using assms
  by (auto simp: clearCompleted_def held_ids_def Let_def distinct_map_filter
      split: option.splits)

lemma reorderTodos_unique:
  assumes "distinct (held_ids S)"
  shows "distinct (held_ids (reorderTodos S orderedIds))"
proof -
  let ?slot = "case deletedTodo S of None \<Rightarrow> [] | Some d \<Rightarrow> [d]"
  let ?res = "sort_key (\<lambda>t. indexOf orderedIds (idOf t)) (todos S)"
  have "mset (map idOf (?res @ ?slot)) = mset (map idOf (todos S @ ?slot))" by simp
  then have "distinct (map idOf (?res @ ?slot)) = distinct (map idOf (todos S @ ?slot))"
    by (rule mset_eq_imp_distinct_iff)
  with assms show ?thesis by (simp add: reorderTodos_def array_sort_key held_ids_def)
qed

lemma addTodo_unique_iff:
  assumes "distinct (held_ids S)"
  shows "distinct (held_ids (snd (addTodo S text now jitter isoString))) \<longleftrightarrow>
         generateId now jitter \<notin> set (held_ids S)"
  using assms
  by (auto simp: addTodo_def held_ids_def Let_def split: option.splits)

text \<open>
  C1. Every task of the Collection has a unique id in every reachable state. The source
  documents \<open>generateId\<close> as returning a unique id, but two calls return the same number
  whenever the jitter makes up for the time between them. Started on an empty storage,
  the application adds a task at clock reading 1700000000000 with jitter 1 and another
  one millisecond later with jitter 0: both tasks get the id 1700000000001.
\<close>

theorem two_adds_same_id:
  "todos (snd (handleAddTodo
        (snd (handleAddTodo (init Absent Absent) ''Buy milk'' 1700000000000 1
               ''2023-11-14T22:13:20.000Z''))
        ''Walk dog'' 1700000000001 0 ''2023-11-14T22:13:20.001Z''))
   = [\<lparr>idOf = 1700000000001, textOf = ''Buy milk'', completed = False,
        createdAt = ''2023-11-14T22:13:20.000Z''\<rparr>,
      \<lparr>idOf = 1700000000001, textOf = ''Walk dog'', completed = False,
        createdAt = ''2023-11-14T22:13:20.001Z''\<rparr>]
   \<and> \<not> distinct (map idOf (todos (snd (handleAddTodo
        (snd (handleAddTodo (init Absent Absent) ''Buy milk'' 1700000000000 1
               ''2023-11-14T22:13:20.000Z''))
        ''Walk dog'' 1700000000001 0 ''2023-11-14T22:13:20.001Z''))))"
  by code_simp


section \<open>Reordering\<close>

text \<open>
  C2, as stated, fails: a task whose id is not in \<open>orderedIds\<close> has index \<open>-1\<close> there and
  sorts before every recognized task, not after. On the ids 1, 2, 3 the call
  \<open>reorderTodos([3, 1])\<close> gives the order 2, 3, 1, where the specification's reading
  gives 3, 1, 2.
\<close>

theorem reorder_appends_unknown_counterexample:
  "todos (reorderTodos three_tasks [3, 1]) = [task2, task3, task1] \<and>
   reorder_spec (todos three_tasks) [3, 1] = [task3, task1, task2] \<and>
   todos (reorderTodos three_tasks [3, 1]) \<noteq> reorder_spec (todos three_tasks) [3, 1]"
  by (simp add: reorderTodos_def array_sort_def reorder_spec_def indexOf_def three_tasks_def
      constructor_def task1_def task2_def task3_def)

text \<open>
  C2, amended. \<open>reorderTodos(orderedIds)\<close> puts the tasks whose ids do not appear in
  \<open>orderedIds\<close> first, in their relative order, and after them the tasks whose ids do
  appear, sorted by the position of the id's first occurrence in \<open>orderedIds\<close>. When the
  ids of the Collection are distinct and \<open>orderedIds\<close> is a permutation of them, the
  resulting order of ids is \<open>orderedIds\<close>.
\<close>

theorem reorder_unknown_first:
  "todos (reorderTodos S orderedIds) =
     filter (\<lambda>t. idOf t \<notin> set orderedIds) (todos S) @
     sort_key (\<lambda>t. indexOf orderedIds (idOf t)) (filter (\<lambda>t. idOf t \<in> set orderedIds) (todos S))
   \<and> filter (\<lambda>t. idOf t \<notin> set orderedIds) (todos (reorderTodos S orderedIds)) =
       filter (\<lambda>t. idOf t \<notin> set orderedIds) (todos S)
   \<and> sorted (map (\<lambda>t. indexOf orderedIds (idOf t))
               (filter (\<lambda>t. idOf t \<in> set orderedIds) (todos (reorderTodos S orderedIds))))
   \<and> (distinct (map idOf (todos S)) \<and> mset (map idOf (todos S)) = mset orderedIds \<longrightarrow>
        map idOf (todos (reorderTodos S orderedIds)) = orderedIds)"
proof -
  let ?key = "\<lambda>t. indexOf orderedIds (idOf t)"
  let ?res = "sort_key ?key (todos S)"
  have res: "todos (reorderTodos S orderedIds) = ?res"
    by (simp add: reorderTodos_def array_sort_key)
  have unk: "(\<lambda>t. idOf t \<notin> set orderedIds) = (\<lambda>t. ?key t = - 1)"
    by (simp add: indexOf_minus1_iff)
  have kn: "(\<lambda>t. idOf t \<in> set orderedIds) = (\<lambda>t. ?key t \<noteq> - 1)"
    by (simp add: indexOf_minus1_iff)
  have srt: "sorted (map ?key ?res)" by (rule sorted_sort_key)
  have stable: "filter (\<lambda>t. ?key t = - 1) ?res = filter (\<lambda>t. ?key t = - 1) (todos S)"
    by (rule sort_key_stable)
  have known: "filter (\<lambda>t. ?key t \<noteq> - 1) ?res = sort_key ?key (filter (\<lambda>t. ?key t \<noteq> - 1) (todos S))"
    by (rule filter_sort)
  have "?res = filter (\<lambda>t. ?key t = - 1) ?res @ filter (\<lambda>t. ?key t \<noteq> - 1) ?res"
    by (rule sorted_split_least [OF srt]) (simp add: indexOf_ge_minus1)
  then have split: "?res = filter (\<lambda>t. ?key t = - 1) (todos S) @
      sort_key ?key (filter (\<lambda>t. ?key t \<noteq> - 1) (todos S))"
    by (simp only: stable known)
  have c1: "todos (reorderTodos S orderedIds) =
     filter (\<lambda>t. idOf t \<notin> set orderedIds) (todos S) @
     sort_key ?key (filter (\<lambda>t. idOf t \<in> set orderedIds) (todos S))"
    unfolding res unk kn by (rule split)
  have c2: "filter (\<lambda>t. idOf t \<notin> set orderedIds) (todos (reorderTodos S orderedIds)) =
       filter (\<lambda>t. idOf t \<notin> set orderedIds) (todos S)"
    unfolding res unk by (rule stable)
  have c3: "sorted (map ?key
               (filter (\<lambda>t. idOf t \<in> set orderedIds) (todos (reorderTodos S orderedIds))))"
    unfolding res by (rule sorted_filter [OF srt])
  have c4: "map idOf (todos (reorderTodos S orderedIds)) = orderedIds"
    if d: "distinct (map idOf (todos S))" and m: "mset (map idOf (todos S)) = mset orderedIds"
  proof -
    let ?ys = "map idOf ?res"
    have mres: "mset ?ys = mset orderedIds" using m by simp
    then have sets: "set ?ys = set orderedIds" by (rule mset_eq_setD)
    have dids: "distinct orderedIds"
      using d m by (metis distinct_count_atmost_1 mset_eq_imp_distinct_iff)
    have dys: "distinct ?ys" using mres dids by (metis mset_eq_imp_distinct_iff)
    have inj: "inj_on (indexOf orderedIds) (set orderedIds)" by (rule indexOf_inj_on)
    have s1: "sorted (map (indexOf orderedIds) ?ys)" using srt by (simp add: comp_def)
    have s2: "sorted (map (indexOf orderedIds) orderedIds)" by (rule indexOf_sorted [OF dids])
    have d1: "distinct (map (indexOf orderedIds) ?ys)"
      using dys inj sets by (simp only: distinct_map)
    have d2: "distinct (map (indexOf orderedIds) orderedIds)"
      using dids inj by (simp add: distinct_map)
    have "set (map (indexOf orderedIds) ?ys) = indexOf orderedIds ` set ?ys"
      by (rule set_map)
    also have "\<dots> = indexOf orderedIds ` set orderedIds"
      by (simp only: sets)
    also have "\<dots> = set (map (indexOf orderedIds) orderedIds)"
      by (rule set_map [symmetric])
    finally have "set (map (indexOf orderedIds) ?ys) = set (map (indexOf orderedIds) orderedIds)" .
    from sorted_distinct_set_unique [OF s1 d1 s2 d2 this]
    have "map (indexOf orderedIds) ?ys = map (indexOf orderedIds) orderedIds" .
    moreover have "inj_on (indexOf orderedIds) (set ?ys \<union> set orderedIds)"
      using inj sets by simp
    ultimately have "?ys = orderedIds" by (simp only: inj_on_map_eq_map)
    then show ?thesis unfolding res .
  qed
  from c1 c2 c3 c4 show ?thesis by blast
qed

theorem reorder_unknown_first_witness:
  "distinct (map idOf (todos three_tasks)) \<and> mset (map idOf (todos three_tasks)) = mset [3, 1, 2] \<and>
   map idOf (todos (reorderTodos three_tasks [3, 1, 2])) = [3, 1, 2]"
proof -
  have h1: "distinct (map idOf (todos three_tasks))"
    by (simp add: three_tasks_def task1_def task2_def task3_def)
  have h2: "mset (map idOf (todos three_tasks)) = mset [3, 1, 2]"
    by (simp add: three_tasks_def task1_def task2_def task3_def)
  have "map idOf (todos (reorderTodos three_tasks [3, 1, 2])) = [3, 1, 2]"
    using reorder_unknown_first [of three_tasks "[3, 1, 2]"] h1 h2 by blast
  then show ?thesis using h1 h2 by blast
qed

text \<open>
  C10. \<open>reorderTodos(orderedIds)\<close> permutes the Collection, whatever \<open>orderedIds\<close> holds:
  the result has the same tasks, each as often as before and with every field as it
  was, and no other state field changes.
\<close>

theorem reorder_is_permutation:
  "mset (todos (reorderTodos S orderedIds)) = mset (todos S) \<and>
   length (todos (reorderTodos S orderedIds)) = length (todos S) \<and>
   reorderTodos S orderedIds = S\<lparr>todos := todos (reorderTodos S orderedIds)\<rparr>"
  by (simp add: reorderTodos_def array_sort_key)


section \<open>The visible tasks\<close>

text \<open>
  \<open>filterTodos\<close> reads its three arguments and builds new arrays; it changes no state.

  C3, as stated, fails: the search query is trimmed only to decide whether there is a
  search at all; the match is against the lower-cased query as typed. With the query
  \<open>"milk "\<close> (a trailing space) the task "Buy Milk" is not visible, though the trimmed
  query \<open>"milk"\<close> occurs in its text.
\<close>

theorem visibleTasks_trimmed_query_counterexample:
  "filterTodos (todos three_tasks) ''all'' ''milk '' = [task3] \<and>
   visibleTasks_spec (todos three_tasks) ''all'' ''milk '' = [task1, task3] \<and>
   filterTodos (todos three_tasks) ''all'' ''milk '' \<noteq>
     visibleTasks_spec (todos three_tasks) ''all'' ''milk ''"
proof -
  have 1: "filterTodos (todos three_tasks) ''all'' ''milk '' = [task3]" by code_simp
  have 2: "visibleTasks_spec (todos three_tasks) ''all'' ''milk '' = [task1, task3]" by code_simp
  have 3: "[task3] \<noteq> [task1, task3]" by simp
  from 1 2 3 show ?thesis by simp
qed

text \<open>
  C3, amended. For every Collection, filter and search query, \<open>filterTodos\<close> returns, in
  the Collection's order, exactly the tasks that satisfy both predicates: the query is
  empty after trimming or the lower-cased query, not trimmed, is a substring of the
  lower-cased text; and the filter predicate holds (\<open>active\<close>: not completed,
  \<open>completed\<close>: completed, any other value: true).
\<close>

theorem filterTodos_characterisation:
  "filterTodos tds flt query_in =
     filter (\<lambda>t. (trim query_in = [] \<or>
                   includes_str (toLowerCase (textOf t)) (toLowerCase query_in)) \<and>
                  (if flt = ''active'' then \<not> completed t
                   else if flt = ''completed'' then completed t
                   else True)) tds"
  by (simp add: filterTodos_def Let_def conj_commute)

theorem filterTodos_characterisation_witness:
  "filterTodos (todos three_tasks) ''active'' '' MILK'' = [task1] \<and>
   filterTodos (todos three_tasks) ''completed'' ''   '' = [task2] \<and>
   filterTodos (todos three_tasks) ''all'' [CHR 0xA0] = [task1, task2, task3] \<and>
   filterTodos [task1, task_ete] ''all'' [CHR 0xE9, CHR ''t'', CHR 0xE9] = [task_ete]"
proof -
  have "filterTodos (todos three_tasks) ''active'' '' MILK'' =
     filter (\<lambda>t. (trim '' MILK'' = [] \<or>
                   includes_str (toLowerCase (textOf t)) (toLowerCase '' MILK'')) \<and>
                  (if ''active'' = ''active'' then \<not> completed t
                   else if ''active'' = ''completed'' then completed t
                   else True)) (todos three_tasks)"
    by (rule filterTodos_characterisation)
  also have "\<dots> = [task1]" by code_simp
  finally have 1: "filterTodos (todos three_tasks) ''active'' '' MILK'' = [task1]" .
  have 2: "filterTodos (todos three_tasks) ''completed'' ''   '' = [task2]" by code_simp
  have 3: "filterTodos (todos three_tasks) ''all'' [CHR 0xA0] = [task1, task2, task3]"
    by code_simp
  have 4: "filterTodos [task1, task_ete] ''all'' [CHR 0xE9, CHR ''t'', CHR 0xE9] = [task_ete]"
    by code_simp
  from 1 2 3 4 show ?thesis by simp
qed


section \<open>Adding a task\<close>

text \<open>
  C6. For every input text that is non-empty after trimming and every Collection, adding
  it makes the Collection one task longer; the new task is the last element and its
  \<open>completed\<close> is false. (Its text is the trimmed input.)
\<close>

theorem add_appends_one:
  assumes "trim input_value \<noteq> []"
  shows "\<exists>t S'. handleAddTodo S input_value now jitter isoString = ([Success TASK_ADDED], S')
           \<and> addTodo S (trim input_value) now jitter isoString = ([Success TASK_ADDED], S')
           \<and> todos S' = todos S @ [t]
           \<and> length (todos S') = length (todos S) + 1
           \<and> last (todos S') = t
           \<and> completed t = False
           \<and> textOf t = trim input_value"
  using assms
  by (simp add: handleAddTodo_def addTodo_def validateTodoText_trim Let_def)

theorem add_appends_one_witness:
  "trim ''  Buy Milk '' \<noteq> [] \<and>
   (\<exists>t S'. handleAddTodo three_tasks ''  Buy Milk '' 1700000000000 7 ''d'' = ([Success TASK_ADDED], S')
           \<and> addTodo three_tasks (trim ''  Buy Milk '') 1700000000000 7 ''d'' = ([Success TASK_ADDED], S')
           \<and> todos S' = todos three_tasks @ [t]
           \<and> length (todos S') = length (todos three_tasks) + 1
           \<and> last (todos S') = t
           \<and> completed t = False
           \<and> textOf t = ''Buy Milk'')"
proof -
  have v: "trim ''  Buy Milk '' = ''Buy Milk''" by code_simp
  then have h: "trim ''  Buy Milk '' \<noteq> []" by simp
  from add_appends_one [OF h, of three_tasks 1700000000000 7 "''d''"] v
  show ?thesis using h by simp
qed

text \<open>
  C7. For every input text that is empty after trimming (the empty string, or white
  space and line terminators only) and every Collection, adding it
  fails: \<open>handleAddTodo\<close> shows the warning \<open>NO_TASK_INPUT\<close> (the application's form of
  \<open>InvalidInput\<close>), creates no task and leaves the whole state, the Collection with it,
  as it was.
\<close>

theorem add_blank_rejected:
  assumes "trim input_value = []"
  shows "handleAddTodo S input_value now jitter isoString = ([Warning NO_TASK_INPUT], S)"
  using assms by (simp add: handleAddTodo_def validateTodoText_def trim_Nil)

theorem add_blank_rejected_witness:
  "trim ''   '' = [] \<and> trim [] = [] \<and> trim [CHR 0xA0, CHR 0x09, CHR 0x0A] = [] \<and>
   handleAddTodo three_tasks ''   '' 1700000000000 7 ''d'' = ([Warning NO_TASK_INPUT], three_tasks) \<and>
   handleAddTodo three_tasks [] 1700000000000 7 ''d'' = ([Warning NO_TASK_INPUT], three_tasks) \<and>
   handleAddTodo three_tasks [CHR 0xA0, CHR 0x09, CHR 0x0A] 1700000000000 7 ''d''
     = ([Warning NO_TASK_INPUT], three_tasks)"
proof -
  have h: "trim ''   '' = []" by code_simp
  have h0: "trim [] = []" by (rule trim_Nil)
  have h1: "trim [CHR 0xA0, CHR 0x09, CHR 0x0A] = []" by code_simp
  show ?thesis
    using h h0 h1 add_blank_rejected [OF h, of three_tasks 1700000000000 7 "''d''"]
      add_blank_rejected [OF h0, of three_tasks 1700000000000 7 "''d''"]
      add_blank_rejected [OF h1, of three_tasks 1700000000000 7 "''d''"]
    by simp
qed


section \<open>Operations on an id that is not in the Collection\<close>

text \<open>
  C8, as stated, fails in its second half: \<open>editTodo\<close> and \<open>deleteTodo\<close> return
  silently on an id that is absent. They show no toast and report nothing, and the
  outcome of such an edit is that of an edit the user cancelled.
\<close>

theorem absent_id_not_reported_counterexample:
  "\<not> reports (editTodo three_tasks 7 (Some ''new text'')) \<and>
   \<not> reports (deleteTodo three_tasks 7 1700000000000) \<and>
   editTodo three_tasks 7 (Some ''new text'') = editTodo three_tasks 1 None"
  by (simp add: reports_def editTodo_def deleteTodo_def three_tasks_def constructor_def
      task1_def task2_def task3_def)

text \<open>
  C8, amended. For every id not present in the Collection, \<open>toggleTodo\<close>, \<open>editTodo\<close> and
  \<open>deleteTodo\<close> leave the Collection, and the rest of the state, unchanged (same tasks,
  same order, same field values), and all three return silently, showing no toast.
\<close>

theorem absent_id_no_change:
  assumes "i \<notin> idOf ` set (todos S)"
  shows "toggleTodo S i = ([], S) \<and> editTodo S i answer = ([], S) \<and> deleteTodo S i now = ([], S)"
proof -
  have "findIndex (\<lambda>t. idOf t = i) (todos S) = None"
    using assms by (auto simp: findIndex_None_iff)
  then show ?thesis by (simp add: toggleTodo_def editTodo_def deleteTodo_def)
qed

theorem absent_id_no_change_witness:
  "7 \<notin> idOf ` set (todos three_tasks) \<and>
   toggleTodo three_tasks 7 = ([], three_tasks) \<and>
   editTodo three_tasks 7 (Some ''new text'') = ([], three_tasks) \<and>
   deleteTodo three_tasks 7 1700000000000 = ([], three_tasks)"
proof -
  have h: "7 \<notin> idOf ` set (todos three_tasks)"
    by (simp add: three_tasks_def task1_def task2_def task3_def)
  show ?thesis using h absent_id_no_change [OF h] by simp
qed


section \<open>Delete and undo\<close>

text \<open>
  C4. For every Collection containing a task with the id, deleting it at clock reading
  \<open>t0\<close> and confirming the undo at a clock reading \<open>now\<close> less than 5000 ms later
  restores the deleted task itself (the first task with that id: same \<open>id\<close>, \<open>text\<close>,
  \<open>completed\<close> and \<open>createdAt\<close>), appended at the end of the Collection.
\<close>

theorem delete_undo_roundtrip:
  assumes "i \<in> idOf ` set (todos S)" and "now - t0 < 5000"
  shows "\<exists>d S1 S2. List.find (\<lambda>t. idOf t = i) (todos S) = Some d
           \<and> deleteTodo S i t0 = ([Danger TASK_DELETED], S1)
           \<and> todos S1 = remove1 d (todos S)
           \<and> setupUndo_callback S1 True now = Inr ([Success TASK_RESTORED], S2)
           \<and> todos S2 = todos S1 @ [d]
           \<and> last (todos S2) = d \<and> idOf d = i
           \<and> deletedTodo S2 = None"
proof -
  from assms(1) obtain k where k: "findIndex (\<lambda>t. idOf t = i) (todos S) = Some k"
    using findIndex_None_iff [of "\<lambda>t. idOf t = i" "todos S"] by fastforce
  let ?d = "todos S ! k"
  from findIndex_Some [OF k] have f: "List.find (\<lambda>t. idOf t = i) (todos S) = Some ?d"
    and idd: "idOf ?d = i" by simp_all
  have sp: "splice1 k (todos S) = remove1 ?d (todos S)" by (rule findIndex_splice1 [OF k])
  show ?thesis
    using k f idd sp assms(2)
    by (simp add: deleteTodo_def setupUndo_callback_def MAX_UNDO_TIME_def)
qed

theorem delete_undo_roundtrip_witness:
  "2 \<in> idOf ` set (todos three_tasks) \<and> (1700000003000 :: int) - 1700000000000 < 5000 \<and>
   setupUndo_callback (snd (deleteTodo three_tasks 2 1700000000000)) True 1700000003000
     = Inr ([Success TASK_RESTORED], three_tasks\<lparr>todos := [task1, task3, task2]\<rparr>)"
proof -
  have h1: "2 \<in> idOf ` set (todos three_tasks)"
    by (simp add: three_tasks_def task1_def task2_def task3_def)
  have h2: "(1700000003000 :: int) - 1700000000000 < 5000" by simp
  from delete_undo_roundtrip [OF h1 h2] obtain d S1 S2 where
    f: "List.find (\<lambda>t. idOf t = 2) (todos three_tasks) = Some d"
    and del: "deleteTodo three_tasks 2 1700000000000 = ([Danger TASK_DELETED], S1)"
    and cb: "setupUndo_callback S1 True 1700000003000 = Inr ([Success TASK_RESTORED], S2)"
    by blast
  have "setupUndo_callback S1 True 1700000003000
     = Inr ([Success TASK_RESTORED], three_tasks\<lparr>todos := [task1, task3, task2]\<rparr>)"
    using del
    by (auto simp: deleteTodo_def setupUndo_callback_def MAX_UNDO_TIME_def splice1_def
        three_tasks_def constructor_def task1_def task2_def task3_def)
  with del h1 h2 show ?thesis by simp
qed

text \<open>
  C5. For every Collection containing a task with the id, deleting it at clock reading
  \<open>t0\<close> and confirming the undo at a clock reading \<open>now\<close> 5000 ms later or more leaves
  the Collection as the delete left it: nothing is restored, no toast is shown, and the
  Collection stays one task shorter than before the delete.
\<close>

theorem delete_late_undo_noop:
  assumes "i \<in> idOf ` set (todos S)" and "now - t0 \<ge> 5000"
  shows "\<exists>d S1 S2. List.find (\<lambda>t. idOf t = i) (todos S) = Some d
           \<and> deleteTodo S i t0 = ([Danger TASK_DELETED], S1)
           \<and> todos S1 = remove1 d (todos S)
           \<and> setupUndo_callback S1 True now = Inr ([], S2)
           \<and> todos S2 = todos S1
           \<and> length (todos S2) + 1 = length (todos S)
           \<and> deletedTodo S2 = None"
proof -
  from assms(1) obtain k where k: "findIndex (\<lambda>t. idOf t = i) (todos S) = Some k"
    using findIndex_None_iff [of "\<lambda>t. idOf t = i" "todos S"] by fastforce
  let ?d = "todos S ! k"
  from findIndex_Some [OF k] have f: "List.find (\<lambda>t. idOf t = i) (todos S) = Some ?d"
    and idd: "idOf ?d = i" and kl: "k < length (todos S)" by simp_all
  have sp: "splice1 k (todos S) = remove1 ?d (todos S)" by (rule findIndex_splice1 [OF k])
  have len: "length (splice1 k (todos S)) + 1 = length (todos S)"
    using kl by (simp add: splice1_def)
  show ?thesis
    using k f idd sp len assms(2)
    by (simp add: deleteTodo_def setupUndo_callback_def MAX_UNDO_TIME_def)
qed

theorem delete_late_undo_noop_witness:
  "2 \<in> idOf ` set (todos three_tasks) \<and> (1700000005000 :: int) - 1700000000000 \<ge> 5000 \<and>
   setupUndo_callback (snd (deleteTodo three_tasks 2 1700000000000)) True 1700000005000
     = Inr ([], three_tasks\<lparr>todos := [task1, task3]\<rparr>)"
proof -
  have h1: "2 \<in> idOf ` set (todos three_tasks)"
    by (simp add: three_tasks_def task1_def task2_def task3_def)
  have h2: "(1700000005000 :: int) - 1700000000000 \<ge> 5000" by simp
  from delete_late_undo_noop [OF h1 h2] obtain d S1 S2 where
    del: "deleteTodo three_tasks 2 1700000000000 = ([Danger TASK_DELETED], S1)"
    and cb: "setupUndo_callback S1 True 1700000005000 = Inr ([], S2)"
    by blast
  have "setupUndo_callback S1 True 1700000005000
     = Inr ([], three_tasks\<lparr>todos := [task1, task3]\<rparr>)"
    using del
    by (auto simp: deleteTodo_def setupUndo_callback_def MAX_UNDO_TIME_def splice1_def
        three_tasks_def constructor_def task1_def task2_def task3_def)
  with del h1 h2 show ?thesis by simp
qed


section \<open>Loading\<close>

text \<open>
  C9, as stated, fails: the claim counts a payload as invalid when some element lacks an
  integer \<open>id\<close>, but \<open>validateTodos\<close> tests \<open>typeof todo.id === "number"\<close> and accepts
  every number. A stored task with the \<open>id\<close> 1.5 lacks an integer id, passes
  \<open>validateTodos\<close> and is loaded as it is: the Collection is not empty.
\<close>

theorem fraction_id_loaded_counterexample:
  "\<not> validateCollection_spec payload_fraction_id \<and>
   validateTodos payload_fraction_id \<and>
   todos (init (Parsed payload_fraction_id) Absent) =
     [\<lparr>idOf = 3 / 2, textOf = ''Buy Milk'', completed = False,
       createdAt = ''2024-01-01T10:00:00.000Z''\<rparr>] \<and>
   todos (init (Parsed payload_fraction_id) Absent) \<noteq> []"
proof -
  have fl: "\<lfloor>3 / 2 :: rat\<rfloor> = 1" by (rule floor_unique) simp_all
  have 1: "\<not> validateCollection_spec payload_fraction_id"
    by (simp add: validateCollection_spec_def payload_fraction_id_def fl)
  have 2: "validateTodos payload_fraction_id"
    by (simp add: validateTodos_def validTodo_def payload_fraction_id_def)
  have "toTodos payload_fraction_id =
     [\<lparr>idOf = 3 / 2, textOf = ''Buy Milk'', completed = False,
       createdAt = ''2024-01-01T10:00:00.000Z''\<rparr>]"
    by (simp add: toTodos_def toTodo_def map_filter_simps payload_fraction_id_def)
  with 2 have 3: "todos (init (Parsed payload_fraction_id) Absent) =
     [\<lparr>idOf = 3 / 2, textOf = ''Buy Milk'', completed = False,
       createdAt = ''2024-01-01T10:00:00.000Z''\<rparr>]"
    by (simp add: init_def loadFromStorage_def load_def constructor_def)
  from 1 2 3 show ?thesis by simp
qed

text \<open>
  C9, amended. \<open>validateTodos\<close> returns false exactly for a payload that is not a
  sequence or has some element that is not an object with a number \<open>id\<close> (an integer or
  not), a string \<open>text\<close>, a boolean \<open>completed\<close> and a string \<open>createdAt\<close>. For every
  stored payload for which it returns false, \<open>loadFromStorage\<close> leaves the Collection as
  it was, and so the application starts with an empty Collection: the payload is
  discarded whole, also its well-formed elements, and loading returns a state.
\<close>

theorem invalid_payload_discarded:
  "(validateTodos payload \<longleftrightarrow>
      (\<exists>xs. payload = JArr xs \<and>
         (\<forall>x\<in>set xs. \<exists>fs i t c d. x = JObj fs \<and>
            map_of fs ''id'' = Some (JNum i) \<and> map_of fs ''text'' = Some (JStr t) \<and>
            map_of fs ''completed'' = Some (JBool c) \<and>
            map_of fs ''createdAt'' = Some (JStr d)))) \<and>
   (\<not> validateTodos payload \<longrightarrow>
      todos (loadFromStorage S (Parsed payload) filterItem) = todos S \<and>
      todos (init (Parsed payload) filterItem) = [])"
proof -
  have a: "validateTodos payload \<longleftrightarrow>
      (\<exists>xs. payload = JArr xs \<and>
         (\<forall>x\<in>set xs. \<exists>fs i t c d. x = JObj fs \<and>
            map_of fs ''id'' = Some (JNum i) \<and> map_of fs ''text'' = Some (JStr t) \<and>
            map_of fs ''completed'' = Some (JBool c) \<and>
            map_of fs ''createdAt'' = Some (JStr d)))"
    unfolding validateTodos_iff validTodo_iff ..
  have b: "todos (loadFromStorage S' (Parsed payload) filterItem) = todos S'"
    if "\<not> validateTodos payload" for S'
    using that
    by (simp add: loadFromStorage_def load_def Let_def split: json.splits)
  from a b show ?thesis by (simp add: init_def constructor_def)
qed

theorem invalid_payload_discarded_witness:
  "\<not> validateTodos
       (JArr [JObj [(''id'', JNum 1), (''text'', JStr ''Buy Milk''), (''completed'', JBool False),
                    (''createdAt'', JStr ''2024-01-01T10:00:00.000Z'')],
              JObj [(''id'', JStr ''2''), (''text'', JStr ''Walk dog''), (''completed'', JBool True),
                    (''createdAt'', JStr ''2024-01-02T10:00:00.000Z'')]]) \<and>
   todos (init (Parsed
       (JArr [JObj [(''id'', JNum 1), (''text'', JStr ''Buy Milk''), (''completed'', JBool False),
                    (''createdAt'', JStr ''2024-01-01T10:00:00.000Z'')],
              JObj [(''id'', JStr ''2''), (''text'', JStr ''Walk dog''), (''completed'', JBool True),
                    (''createdAt'', JStr ''2024-01-02T10:00:00.000Z'')]])) Absent) = [] \<and>
   \<not> validateTodos JNull \<and> todos (init (Parsed JNull) Absent) = []"
proof -
  let ?p = "JArr [JObj [(''id'', JNum 1), (''text'', JStr ''Buy Milk''), (''completed'', JBool False),
                    (''createdAt'', JStr ''2024-01-01T10:00:00.000Z'')],
              JObj [(''id'', JStr ''2''), (''text'', JStr ''Walk dog''), (''completed'', JBool True),
                    (''createdAt'', JStr ''2024-01-02T10:00:00.000Z'')]]"
  have h: "\<not> validateTodos ?p"
    by (simp add: validateTodos_def validTodo_def)
  have h0: "\<not> validateTodos JNull" by (simp add: validateTodos_def)
  from invalid_payload_discarded [of ?p constructor Absent] h
  have 1: "todos (init (Parsed ?p) Absent) = []" by blast
  from invalid_payload_discarded [of JNull constructor Absent] h0
  have 2: "todos (init (Parsed JNull) Absent) = []" by blast
  from h h0 1 2 show ?thesis by simp
qed

end
